theory Spec2Isabelle
  imports Main "HOL-Library.Multiset"
begin

section \<open>Duplicate enrollment removal: data model\<close>

text \<open>
  Modelled from the spec: the model class \<^verbatim>\<open>ClientProgramEnrollment\<close> of \<^verbatim>\<open>core.models\<close>,
  whose rows the commands \<^verbatim>\<open>remove_duplicacy.py\<close> and \<^verbatim>\<open>list_multiple_enrollments.py\<close>
  work on, is not among the sources. The record below has the attributes that the
  functions under study read, typed after the spec's data model (an id, a date range
  with an optional end, a status string, an archived flag, a creation timestamp,
  optional notes, an optional receiving-services date, an optional sub-program
  reference) and after the guards the code itself applies to them.

  \<^item> A \<^verbatim>\<open>date\<close> is its day number (\<^verbatim>\<open>date.toordinal()\<close>), an \<^typ>\<open>int\<close>; the last
    date, \<^verbatim>\<open>date.max\<close> (9999-12-31), is day 3652059. Adding \<^verbatim>\<open>timedelta(days=1)\<close> is
    \<open>+ 1\<close> below that day and raises \<^verbatim>\<open>OverflowError\<close> on it.
  \<^item> A \<^verbatim>\<open>datetime\<close> is a point on an integer time line.
  \<^item> An attribute that may hold \<^verbatim>\<open>None\<close> is an \<open>option\<close>. The source guards
    \<^verbatim>\<open>start_date\<close> and \<^verbatim>\<open>created_at\<close> with \<^verbatim>\<open>or timezone.now()\<close>, so both are optional here.
  \<^item> Python truth: a date, a datetime or a referenced row is always true, so \<^verbatim>\<open>x or y\<close>
    on an optional date picks \<^verbatim>\<open>y\<close> only for \<^verbatim>\<open>None\<close>; a string is true when it is not
    empty.
  \<^item> The field \<^verbatim>\<open>id\<close> is \<open>id_no\<close> and \<^verbatim>\<open>notes\<close> is \<open>notes_text\<close>, the plain names being
    taken in Isabelle; the loop variable \<^verbatim>\<open>group\<close> is \<open>grp\<close> for the same reason.
\<close>

record enrollment =
  id_no :: int
  start_date :: "int option"
  end_date :: "int option"
  status :: "string option"
  is_archived :: bool
  created_at :: "int option"
  notes_text :: "string option"
  receiving_services_date :: "int option"
  sub_program :: "int option"

text \<open>
  The exceptions the modelled code can raise: comparing \<^verbatim>\<open>None\<close> with a date by
  \<^verbatim>\<open><=\<close> or \<^verbatim>\<open>>=\<close> is a \<^verbatim>\<open>TypeError\<close>, \<^verbatim>\<open>candidates[0]\<close> on an empty list is an
  \<^verbatim>\<open>IndexError\<close>, and a day added to \<^verbatim>\<open>date.max\<close> is an \<^verbatim>\<open>OverflowError\<close>.
\<close>

datatype error = TypeError | IndexError | OverflowError

definition truthy_str :: "string option \<Rightarrow> bool" where
  "truthy_str s = (case s of None \<Rightarrow> False | Some t \<Rightarrow> t \<noteq> [])"

text \<open>\<^verbatim>\<open>a >= b\<close> and \<^verbatim>\<open>a <= b\<close> on values that may be \<^verbatim>\<open>None\<close>.\<close>

definition date_ge :: "int option \<Rightarrow> int option \<Rightarrow> error + bool" where
  "date_ge a b =
     (case a of
        None \<Rightarrow> Inl TypeError
      | Some x \<Rightarrow> (case b of None \<Rightarrow> Inl TypeError | Some y \<Rightarrow> Inr (x \<ge> y)))"

definition date_le :: "int option \<Rightarrow> int option \<Rightarrow> error + bool" where
  "date_le a b =
     (case a of
        None \<Rightarrow> Inl TypeError
      | Some x \<Rightarrow> (case b of None \<Rightarrow> Inl TypeError | Some y \<Rightarrow> Inr (x \<le> y)))"

text \<open>\<^verbatim>\<open>d + timedelta(days=1)\<close> on a date.\<close>

definition date_max :: int where
  "date_max = 3652059"

definition add_day :: "int \<Rightarrow> error + int" where
  "add_day d = (if d < date_max then Inr (d + 1) else Inl OverflowError)"

section \<open>The overlap predicate\<close>

text \<open>
  \<^verbatim>\<open>ranges_overlap_or_adjacent(start1, end1, start2, end2)\<close>; the two commands carry the
  same body. \<^verbatim>\<open>or\<close> and \<^verbatim>\<open>and\<close> evaluate their right operand only when needed, so a
  comparison that would raise is reached only on the paths written out here. In the last
  branch both ends are dates, hence true, and \<^verbatim>\<open>==\<close> against \<^verbatim>\<open>None\<close> is just false.
  There \<^verbatim>\<open>overlap\<close> is computed first, then \<^verbatim>\<open>adjacent\<close>, whatever \<^verbatim>\<open>overlap\<close> is:
  \<^verbatim>\<open>end1 + timedelta(days=1)\<close> is always evaluated, \<^verbatim>\<open>end2 + timedelta(days=1)\<close> only
  when the first comparison of \<^verbatim>\<open>adjacent\<close> is false.
\<close>

definition ranges_overlap_or_adjacent ::
  "int option \<Rightarrow> int option \<Rightarrow> int option \<Rightarrow> int option \<Rightarrow> error + bool" where
  "ranges_overlap_or_adjacent start1 end1 start2 end2 =
     (case end1 of
        None \<Rightarrow>
          (case end2 of
             None \<Rightarrow> Inr True
           | Some e2 \<Rightarrow>
               (case date_ge start2 start1 of
                  Inl err \<Rightarrow> Inl err
                | Inr b \<Rightarrow> if b then Inr True else date_ge (Some e2) start1))
      | Some e1 \<Rightarrow>
          (case end2 of
             None \<Rightarrow>
               (case date_ge start1 start2 of
                  Inl err \<Rightarrow> Inl err
                | Inr b \<Rightarrow> if b then Inr True else date_ge (Some e1) start2)
           | Some e2 \<Rightarrow>
               (case date_le start1 (Some e2) of
                  Inl err \<Rightarrow> Inl err
                | Inr b1 \<Rightarrow>
                    (case (if b1 then date_le start2 (Some e1) else Inr False) of
                       Inl err \<Rightarrow> Inl err
                     | Inr overlap \<Rightarrow>
                         (case (case add_day e1 of
                                  Inl err \<Rightarrow> Inl err
                                | Inr next1 \<Rightarrow>
                                    if Some next1 = start2 then Inr True
                                    else (case add_day e2 of
                                            Inl err \<Rightarrow> Inl err
                                          | Inr next2 \<Rightarrow> Inr (Some next2 = start1))) of
                            Inl err \<Rightarrow> Inl err
                          | Inr adjacent \<Rightarrow> Inr (overlap \<or> adjacent))))))"

text \<open>The call the clusterer makes on two records.\<close>

definition enrollments_overlap :: "enrollment \<Rightarrow> enrollment \<Rightarrow> error + bool" where
  "enrollments_overlap group_member other =
     ranges_overlap_or_adjacent (start_date group_member) (end_date group_member)
       (start_date other) (end_date other)"

section \<open>The clusterer\<close>

text \<open>The sort key \<^verbatim>\<open>e.start_date or timezone.now().date()\<close>; \<open>today\<close> is the clock's date.\<close>

definition start_key :: "int \<Rightarrow> enrollment \<Rightarrow> int" where
  "start_key today e = (case start_date e of None \<Rightarrow> today | Some d \<Rightarrow> d)"

text \<open>
  The innermost loop, \<^verbatim>\<open>for group_member in group\<close>: does \<open>other\<close> overlap a member?
  The first hit ends the loop (\<^verbatim>\<open>break\<close>), and so does an exception.
\<close>

fun overlaps_any :: "enrollment list \<Rightarrow> enrollment \<Rightarrow> error + bool" where
  "overlaps_any [] other = Inr False"
| "overlaps_any (group_member # rest) other =
     (case enrollments_overlap group_member other of
        Inl err \<Rightarrow> Inl err
      | Inr b \<Rightarrow> if b then Inr True else overlaps_any rest other)"

text \<open>
  One pass \<^verbatim>\<open>for other in sorted_enrollments\<close> of the \<^verbatim>\<open>while changed\<close> loop, on the state
  \<open>(grp, processed, changed)\<close>. A record absorbed early in the pass is already a
  group member when the later records of the same pass are tested.
\<close>

fun scan_pass ::
  "enrollment list \<Rightarrow> enrollment list \<times> int set \<times> bool \<Rightarrow>
     error + (enrollment list \<times> int set \<times> bool)" where
  "scan_pass [] st = Inr st"
| "scan_pass (other # rest) (grp, processed, changed) =
     (if id_no other \<in> processed then scan_pass rest (grp, processed, changed)
      else
        (case overlaps_any grp other of
           Inl err \<Rightarrow> Inl err
         | Inr b \<Rightarrow>
             if b then scan_pass rest (grp @ [other], insert (id_no other) processed, True)
             else scan_pass rest (grp, processed, changed)))"

lemma scan_pass_processed:
  "scan_pass xs (g, p, c) = Inr (g', p', c') \<Longrightarrow>
   p \<subseteq> p' \<and> p' \<subseteq> p \<union> id_no ` set xs \<and> (c' \<longrightarrow> c \<or> p \<noteq> p')"
proof (induction xs arbitrary: g p c)
  case Nil
  then show ?case by simp
next
  case (Cons x xs)
  show ?case
  proof (cases "id_no x \<in> p")
    case True
    with Cons.prems have "scan_pass xs (g, p, c) = Inr (g', p', c')" by simp
    from Cons.IH [OF this] show ?thesis by auto
  next
    case False
    with Cons.prems obtain b where b: "overlaps_any g x = Inr b"
      by (auto split: sum.splits)
    show ?thesis
    proof (cases b)
      case True
      with False b Cons.prems
      have "scan_pass xs (g @ [x], insert (id_no x) p, True) = Inr (g', p', c')" by simp
      from Cons.IH [OF this] False show ?thesis by auto
    next
      case nb: False
      with False b Cons.prems have "scan_pass xs (g, p, c) = Inr (g', p', c')" by simp
      from Cons.IH [OF this] show ?thesis by auto
    qed
  qed
qed

text \<open>
  The loop \<^verbatim>\<open>while changed\<close>: passes are repeated until one absorbs nothing. Every pass
  that sets \<open>changed\<close> marks a record of \<open>sorted_enrollments\<close> processed that was
  not, so the loop ends.
\<close>

function absorb ::
  "enrollment list \<Rightarrow> enrollment list \<Rightarrow> int set \<Rightarrow> error + (enrollment list \<times> int set)" where
  "absorb sorted_enrollments grp processed =
     (case scan_pass sorted_enrollments (grp, processed, False) of
        Inl err \<Rightarrow> Inl err
      | Inr (group', processed', changed) \<Rightarrow>
          if changed then absorb sorted_enrollments group' processed'
          else Inr (group', processed'))"
  by pat_completeness auto
termination
proof (relation "measure (\<lambda>(srt, g, p). card (id_no ` set srt - p))")
  show "wf (measure (\<lambda>(srt, g, p). card (id_no ` set srt - p)))" by simp
next
  fix srt :: "enrollment list" and g :: "enrollment list" and p :: "int set"
    and st g' rest p' and changed :: bool
  assume run: "scan_pass srt (g, p, False) = Inr st"
    and st: "(g', rest) = st" "(p', changed) = rest" and changed: "changed"
  from run st have "scan_pass srt (g, p, False) = Inr (g', p', changed)" by auto
  from scan_pass_processed [OF this] changed
  have "p \<subseteq> p'" "p' \<subseteq> p \<union> id_no ` set srt" "p \<noteq> p'" by auto
  then have "id_no ` set srt - p' \<subset> id_no ` set srt - p" by auto
  then have "card (id_no ` set srt - p') < card (id_no ` set srt - p)"
    by (intro psubset_card_mono) auto
  then show "((srt, g', p'), (srt, g, p)) \<in> measure (\<lambda>(srt, g, p). card (id_no ` set srt - p))"
    by simp
qed

declare absorb.simps [simp del]

text \<open>
  The outer loop \<^verbatim>\<open>for enrollment in sorted_enrollments\<close> on the state
  \<open>(groups, processed)\<close>: an unprocessed record opens a group, the \<^verbatim>\<open>while\<close> loop
  fills it, and only a group of more than one record is appended.
\<close>

fun outer_loop ::
  "enrollment list \<Rightarrow> enrollment list \<Rightarrow> enrollment list list \<times> int set \<Rightarrow>
     error + enrollment list list" where
  "outer_loop sorted_enrollments [] (groups, processed) = Inr groups"
| "outer_loop sorted_enrollments (enrollment # rest) (groups, processed) =
     (if id_no enrollment \<in> processed then outer_loop sorted_enrollments rest (groups, processed)
      else
        (case absorb sorted_enrollments [enrollment] (insert (id_no enrollment) processed) of
           Inl err \<Rightarrow> Inl err
         | Inr (grp, processed') \<Rightarrow>
             outer_loop sorted_enrollments rest
               (if length grp > 1 then groups @ [grp] else groups, processed')))"

text \<open>
  \<^verbatim>\<open>find_overlapping_groups(enrollments)\<close>. \<^verbatim>\<open>sorted\<close> is stable and ascending, as
  \<^const>\<open>sort_key\<close> is.
\<close>

definition find_overlapping_groups :: "int \<Rightarrow> enrollment list \<Rightarrow> error + enrollment list list" where
  "find_overlapping_groups today enrollments =
     (if enrollments = [] then Inr []
      else
        (let sorted_enrollments = sort_key (start_key today) enrollments
         in outer_loop sorted_enrollments sorted_enrollments ([], {})))"

section \<open>The resolver\<close>

text \<open>
  The sort key \<^verbatim>\<open>e.created_at or timezone.now()\<close>. \<^verbatim>\<open>list.sort\<close> computes the keys of
  all elements first, in list order, so the clock is read once for every record without
  \<^verbatim>\<open>created_at\<close>, one record after the other; \<open>clock k\<close> is reading number \<open>k\<close> of the
  call, counted from 0. \<open>created_keys clock k es\<close> are the keys of \<open>es\<close> when \<open>k\<close>
  readings have been taken before.
\<close>

fun created_keys :: "(nat \<Rightarrow> int) \<Rightarrow> nat \<Rightarrow> enrollment list \<Rightarrow> int list" where
  "created_keys clock k [] = []"
| "created_keys clock k (e # es) =
     (case created_at e of
        None \<Rightarrow> clock k # created_keys clock (Suc k) es
      | Some t \<Rightarrow> t # created_keys clock k es)"

text \<open>The nested function \<^verbatim>\<open>completeness_score\<close>.\<close>

definition completeness_score :: "enrollment \<Rightarrow> int" where
  "completeness_score enrollment =
     (if truthy_str (notes_text enrollment) then 10 else 0) +
     (if receiving_services_date enrollment \<noteq> None then 5 else 0) +
     (if truthy_str (status enrollment) \<and> status enrollment \<noteq> Some ''pending'' then 3 else 0) +
     (if sub_program enrollment \<noteq> None then 2 else 0)"

text \<open>
  The body of the loop \<^verbatim>\<open>for candidate in candidates\<close> of priority 3, on the state
  \<open>(most_recent, best_score)\<close>.
\<close>

definition prefer_complete :: "enrollment \<Rightarrow> enrollment \<times> int \<Rightarrow> enrollment \<times> int" where
  "prefer_complete candidate st =
     (case st of (most_recent, best_score) \<Rightarrow>
        if created_at candidate = created_at most_recent then
          (let score = completeness_score candidate
           in if score > best_score then (candidate, score) else (most_recent, best_score))
        else (most_recent, best_score))"

text \<open>
  \<^verbatim>\<open>select_best_enrollment(enrollments)\<close>. The result is the record to keep together with
  the caller's list as the call leaves it: \<^verbatim>\<open>candidates.sort(...)\<close> sorts in place, and
  when no record is non-archived \<^verbatim>\<open>candidates\<close> is the caller's list itself, not a copy.
  \<^verbatim>\<open>list.sort(key=k, reverse=True)\<close> pairs every element with its key and sorts the
  pairs by key, descending and stable, that is ascending and stable on the negated key.
  \<open>today\<close> is the date of the clock, \<^verbatim>\<open>timezone.now().date()\<close>, taken to be one and
  the same day throughout the call, as in the clusterer.
\<close>

definition select_best_enrollment ::
  "(nat \<Rightarrow> int) \<Rightarrow> int \<Rightarrow> enrollment list \<Rightarrow> error + (enrollment \<times> enrollment list)" where
  "select_best_enrollment clock today enrollments =
     (if length enrollments = 1 then
        (case enrollments of [] \<Rightarrow> Inl IndexError | only # _ \<Rightarrow> Inr (only, enrollments))
      else
        (let non_archived = filter (\<lambda>e. \<not> is_archived e) enrollments;
             unsorted = (if non_archived \<noteq> [] then non_archived else enrollments);
             candidates = map snd (sort_key (\<lambda>keyed. - fst keyed)
                                     (zip (created_keys clock 0 unsorted) unsorted));
             enrollments' = (if non_archived \<noteq> [] then enrollments else candidates)
         in case candidates of
              [] \<Rightarrow> Inl IndexError
            | first # _ \<Rightarrow>
                (case fold prefer_complete candidates (first, completeness_score first) of
                   (most_recent, best_score) \<Rightarrow>
                     (let same_completeness =
                            filter (\<lambda>e. created_at e = created_at most_recent \<and>
                                         completeness_score e = best_score) candidates
                      in case sort_key (start_key today) same_completeness of
                           [] \<Rightarrow> Inr (most_recent, enrollments')
                         | best # _ \<Rightarrow> Inr (best, enrollments')))))"

text \<open>
  \<^verbatim>\<open>remove_duplicate_group(group, dry_run=True)\<close>: the dictionary it returns, or \<^verbatim>\<open>None\<close>.
  The path with \<^verbatim>\<open>dry_run=False\<close> deletes rows through the ORM and is outside this model.
\<close>

record removal =
  kept_id :: int
  removed_count :: nat
  removed_ids :: "int list"
  total_duplicates :: nat
  status_updated :: bool

definition remove_duplicate_group ::
  "(nat \<Rightarrow> int) \<Rightarrow> int \<Rightarrow> enrollment list \<Rightarrow> error + removal option" where
  "remove_duplicate_group clock today grp =
     (if length grp \<le> 1 then Inr None
      else
        (case select_best_enrollment clock today grp of
           Inl err \<Rightarrow> Inl err
         | Inr (enrollment_to_keep, grp') \<Rightarrow>
             (let enrollments_to_remove =
                    filter (\<lambda>e. id_no e \<noteq> id_no enrollment_to_keep) grp'
              in Inr (Some \<lparr>kept_id = id_no enrollment_to_keep,
                             removed_count = length enrollments_to_remove,
                             removed_ids = map id_no enrollments_to_remove,
                             total_duplicates = length grp',
                             status_updated = False\<rparr>))))"

section \<open>Notions for the statements and the proofs\<close>

subsection \<open>The groups of one record\<close>



definition multiple :: "enrollment list \<Rightarrow> bool" where
  "multiple g \<longleftrightarrow> 1 < length g"

subsection \<open>Records on which the overlap test cannot raise\<close>

text \<open>
  \<open>last_day e\<close> says that the end date \<open>e\<close> is \<^verbatim>\<open>date.max\<close>, so that a day cannot be
  added to it; \<open>day_before e s\<close> that the end date \<open>e\<close> is the day before the date \<open>s\<close>.
  A record is \<open>well_dated\<close> when it has a start date and its end date, if
  any, is before \<^verbatim>\<open>date.max\<close>: between two such records the overlap test raises nothing.
\<close>

definition last_day :: "int option \<Rightarrow> bool" where
  "last_day e = (case e of None \<Rightarrow> False | Some d \<Rightarrow> date_max \<le> d)"


definition well_dated :: "enrollment \<Rightarrow> bool" where
  "well_dated e \<longleftrightarrow> start_date e \<noteq> None \<and> \<not> last_day (end_date e)"

subsection \<open>Invariants of the outer loop\<close>





subsection \<open>What the resolver selects\<close>

text \<open>
  \<open>candidates_of\<close> is the list that priority 1 leaves. \<open>created_before s t\<close> orders
  two values of \<^verbatim>\<open>created_at\<close>: an earlier stamp is before a later one, and every stamp
  is before a missing one, which the sort counts as created now. A candidate \<open>e\<close> is
  \<open>beaten\<close> by \<open>w\<close> when priorities 2 to 4 prefer \<open>w\<close>: \<open>e\<close> was created before
  \<open>w\<close>, or both have the same \<^verbatim>\<open>created_at\<close> and \<open>w\<close> has the higher score, or the same
  score and the earlier start date.
\<close>

definition candidates_of :: "enrollment list \<Rightarrow> enrollment list" where
  "candidates_of es =
     (if filter (\<lambda>e. \<not> is_archived e) es \<noteq> [] then filter (\<lambda>e. \<not> is_archived e) es else es)"

definition created_before :: "int option \<Rightarrow> int option \<Rightarrow> bool" where
  "created_before s t =
     (case t of
        None \<Rightarrow> s \<noteq> None
      | Some tb \<Rightarrow> (case s of None \<Rightarrow> False | Some ta \<Rightarrow> ta < tb))"

definition beaten :: "int \<Rightarrow> enrollment \<Rightarrow> enrollment \<Rightarrow> bool" where
  "beaten today e w \<longleftrightarrow>
     created_before (created_at e) (created_at w) \<or>
     (created_at e = created_at w \<and>
      (completeness_score e < completeness_score w \<or>
       (completeness_score e = completeness_score w \<and>
        start_key today w < start_key today e)))"

section \<open>Example records\<close>

text \<open>
  A plain record for the concrete runs below: not archived, created at instant 0, status
  \<^verbatim>\<open>'pending'\<close>, no notes, no receiving-services date, no sub-program.
\<close>

definition example_enrollment :: "int \<Rightarrow> int option \<Rightarrow> int option \<Rightarrow> enrollment" where
  "example_enrollment i s e =
     \<lparr>id_no = i, start_date = s, end_date = e, status = Some ''pending'',
      is_archived = False, created_at = Some 0, notes_text = None,
      receiving_services_date = None, sub_program = None\<rparr>"






text \<open>
  A cluster with a single best candidate, record 3 without \<^verbatim>\<open>created_at\<close>, and two
  records tied with each other through all four priorities; the same cluster in another
  order.
\<close>

definition winner_example :: "enrollment list" where
  "winner_example =
     [example_enrollment 1 (Some 1) None,
      (example_enrollment 3 (Some 1) None)\<lparr>created_at := None\<rparr>,
      example_enrollment 2 (Some 1) None]"

definition winner_example_permuted :: "enrollment list" where
  "winner_example_permuted =
     [example_enrollment 2 (Some 1) None, example_enrollment 1 (Some 1) None,
      (example_enrollment 3 (Some 1) None)\<lparr>created_at := None\<rparr>]"

text \<open>
  A record with notes and a receiving-services date (score 15) and one without notes
  that has a receiving-services date, a status other than \<^verbatim>\<open>'pending'\<close> and a
  sub-program (score 10).
\<close>

definition noted_example :: enrollment where
  "noted_example =
     (example_enrollment 1 (Some 5) None)
       \<lparr>notes_text := Some ''ok'', receiving_services_date := Some 2\<rparr>"

definition unnoted_example :: enrollment where
  "unnoted_example =
     (example_enrollment 2 (Some 1) None)
       \<lparr>status := Some ''active'', receiving_services_date := Some 1, sub_program := Some 7\<rparr>"



lemmas resolver_run =
  select_best_enrollment_def remove_duplicate_group_def Let_def start_key_def
  completeness_score_def prefer_complete_def truthy_str_def example_enrollment_def

section \<open>The loops of the clusterer\<close>

subsection \<open>One pass\<close>

lemmas predicate_defs =
  enrollments_overlap_def ranges_overlap_or_adjacent_def date_ge_def date_le_def add_day_def
  last_day_def well_dated_def


lemma enrollments_overlap_sym:
  "well_dated a \<Longrightarrow> well_dated b \<Longrightarrow> enrollments_overlap a b = enrollments_overlap b a"
  by (auto simp: predicate_defs split: option.splits)








subsection \<open>The loop that fills one group\<close>




subsection \<open>The outer loop\<close>

















lemma multiple_two: "x \<in> set g \<Longrightarrow> y \<in> set g \<Longrightarrow> x \<noteq> y \<Longrightarrow> multiple g"
  unfolding multiple_def by (cases g rule: list.exhaust; cases "tl g") auto


section \<open>The selection of the resolver\<close>

subsection \<open>The sort by creation time\<close>

lemma sort_key_head:
  assumes "sort_key f xs = y # ys"
  shows "y \<in> set xs" and "\<forall>x\<in>set xs. (f y :: int) \<le> f x"
proof -
  have "set (sort_key f xs) = set xs" by simp
  with assms show "y \<in> set xs" by auto
  have "sorted (map f (sort_key f xs))" by (rule sorted_sort_key)
  with assms have "\<forall>x\<in>set ys. f y \<le> f x" by simp
  moreover have "set xs = insert y (set ys)" using assms by (metis list.simps(15) set_sort)
  ultimately show "\<forall>x\<in>set xs. f y \<le> f x" by auto
qed

lemma length_created_keys: "length (created_keys clock k es) = length es"
  by (induction es arbitrary: k) (auto split: option.splits)

lemma created_keys_zip:
  "(key, e) \<in> set (zip (created_keys clock k es) es) \<Longrightarrow>
   (case created_at e of None \<Rightarrow> \<exists>j. key = clock j | Some t \<Rightarrow> key = t)"
proof (induction es arbitrary: k)
  case Nil
  then show ?case by simp
next
  case (Cons x es)
  show ?case
  proof (cases "created_at x")
    case None
    with Cons.prems have "(key, e) = (clock k, x) \<or>
        (key, e) \<in> set (zip (created_keys clock (Suc k) es) es)" by simp
    then show ?thesis
    proof
      assume "(key, e) = (clock k, x)"
      with None show ?thesis by auto
    next
      assume "(key, e) \<in> set (zip (created_keys clock (Suc k) es) es)"
      from Cons.IH [OF this] show ?thesis .
    qed
  next
    case (Some t)
    with Cons.prems have "(key, e) = (t, x) \<or>
        (key, e) \<in> set (zip (created_keys clock k es) es)" by simp
    then show ?thesis
    proof
      assume "(key, e) = (t, x)"
      with Some show ?thesis by auto
    next
      assume "(key, e) \<in> set (zip (created_keys clock k es) es)"
      from Cons.IH [OF this] show ?thesis .
    qed
  qed
qed

lemma keyed_records:
  "map snd (sort_key f (zip (created_keys clock k es) es)) = cs \<Longrightarrow> set cs = set es"
proof -
  assume a: "map snd (sort_key f (zip (created_keys clock k es) es)) = cs"
  have "set (map snd (sort_key f (zip (created_keys clock k es) es))) =
        snd ` set (zip (created_keys clock k es) es)" by simp
  also have "\<dots> = set (map snd (zip (created_keys clock k es) es))" by simp
  also have "\<dots> = set es" by (simp add: length_created_keys)
  finally show ?thesis using a by simp
qed

lemma keyed_member:
  "e \<in> set es \<Longrightarrow> \<exists>key. (key, e) \<in> set (zip (created_keys clock k es) es)"
proof -
  assume "e \<in> set es"
  then have "e \<in> set (map snd (zip (created_keys clock k es) es))"
    by (simp add: length_created_keys)
  then show ?thesis by auto
qed

subsection \<open>The candidates and the best score\<close>

lemma fold_prefer_complete:
  "fold prefer_complete cs (m0, completeness_score m0) = (mr, bs) \<Longrightarrow>
   bs = completeness_score mr \<and> created_at mr = created_at m0 \<and> (mr = m0 \<or> mr \<in> set cs) \<and>
   completeness_score m0 \<le> completeness_score mr \<and>
   (\<forall>e\<in>set cs. created_at e = created_at m0 \<longrightarrow> completeness_score e \<le> completeness_score mr)"
proof (induction cs arbitrary: m0)
  case Nil
  then show ?case by auto
next
  case (Cons c cs)
  show ?case
  proof (cases "created_at c = created_at m0 \<and> completeness_score m0 < completeness_score c")
    case True
    then have "prefer_complete c (m0, completeness_score m0) = (c, completeness_score c)"
      by (simp add: prefer_complete_def)
    with Cons.prems have "fold prefer_complete cs (c, completeness_score c) = (mr, bs)" by simp
    from Cons.IH [OF this] True show ?thesis by auto
  next
    case False
    then have "prefer_complete c (m0, completeness_score m0) = (m0, completeness_score m0)"
      by (auto simp: prefer_complete_def)
    with Cons.prems have "fold prefer_complete cs (m0, completeness_score m0) = (mr, bs)" by simp
    from Cons.IH [OF this] False show ?thesis by auto
  qed
qed

lemma candidates_of_nonempty: "es \<noteq> [] \<Longrightarrow> candidates_of es \<noteq> []"
  by (simp add: candidates_of_def)

lemma candidates_of_set:
  "set (candidates_of es) =
     (if \<exists>e\<in>set es. \<not> is_archived e then {e \<in> set es. \<not> is_archived e} else set es)"
  by (auto simp: candidates_of_def filter_empty_conv)

lemma candidates_of_archived:
  "a \<in> set (candidates_of es) \<Longrightarrow> b \<in> set es \<Longrightarrow> is_archived b = is_archived a \<Longrightarrow>
   b \<in> set (candidates_of es)"
  by (auto simp: candidates_of_set split: if_splits)

lemma candidates_of_subset: "set (candidates_of es) \<subseteq> set es"
  by (auto simp: candidates_of_set)

subsection \<open>One call, priority by priority\<close>

text \<open>
  \<open>select_best_enrollment_run\<close> names the intermediate values of a call on a list of
  length other than one: the candidates after the sort, the record \<open>most_recent\<close> with
  the best score among those created with the first one, and the head of the last sort.
\<close>

lemma select_best_enrollment_unfold:
  assumes "length es \<noteq> 1"
  shows "select_best_enrollment clock today es =
     (case map snd (sort_key (\<lambda>keyed. - fst keyed)
                      (zip (created_keys clock 0 (candidates_of es)) (candidates_of es))) of
        [] \<Rightarrow> Inl IndexError
      | first # rest \<Rightarrow>
          (case fold prefer_complete (first # rest) (first, completeness_score first) of
             (most_recent, best_score) \<Rightarrow>
               (case sort_key (start_key today)
                       (filter (\<lambda>e. created_at e = created_at most_recent \<and>
                                    completeness_score e = best_score) (first # rest)) of
                  [] \<Rightarrow> Inr (most_recent,
                          if filter (\<lambda>e. \<not> is_archived e) es \<noteq> [] then es else first # rest)
                | best # others \<Rightarrow> Inr (best,
                          if filter (\<lambda>e. \<not> is_archived e) es \<noteq> [] then es else first # rest))))"
  using assms
  by (simp add: select_best_enrollment_def candidates_of_def Let_def split: list.splits prod.splits)

text \<open>The run of the resolver on a list of two or more records, step by step.\<close>

lemma select_best_enrollment_run:
  assumes len: "length es \<noteq> 1" and ne: "es \<noteq> []"
  obtains keyed first rest mr best others where
    "sort_key (\<lambda>keyed. - fst keyed)
       (zip (created_keys clock 0 (candidates_of es)) (candidates_of es)) = keyed"
    "map snd keyed = first # rest"
    "set (first # rest) = set (candidates_of es)"
    "fold prefer_complete (first # rest) (first, completeness_score first) =
       (mr, completeness_score mr)"
    "created_at mr = created_at first"
    "\<forall>e\<in>set (first # rest). created_at e = created_at first \<longrightarrow>
       completeness_score e \<le> completeness_score mr"
    "sort_key (start_key today)
       (filter (\<lambda>e. created_at e = created_at mr \<and>
                    completeness_score e = completeness_score mr) (first # rest)) = best # others"
    "select_best_enrollment clock today es =
       Inr (best, if filter (\<lambda>e. \<not> is_archived e) es \<noteq> [] then es else first # rest)"
proof -
  let ?C = "candidates_of es"
  let ?keyed = "sort_key (\<lambda>keyed. - fst keyed) (zip (created_keys clock 0 ?C) ?C)"
  have setc: "set (map snd ?keyed) = set ?C" by (rule keyed_records [OF refl])
  with candidates_of_nonempty [OF ne] have "map snd ?keyed \<noteq> []" by (metis set_empty)
  then obtain first rest where cands: "map snd ?keyed = first # rest"
    by (cases "map snd ?keyed") auto
  obtain mr bs where fold: "fold prefer_complete (first # rest) (first, completeness_score first) = (mr, bs)"
    by (cases "fold prefer_complete (first # rest) (first, completeness_score first)")
  note fp = fold_prefer_complete [OF fold]
  from fp have bs: "bs = completeness_score mr" by blast
  let ?same = "filter (\<lambda>e. created_at e = created_at mr \<and>
                    completeness_score e = completeness_score mr) (first # rest)"
  from fp have "mr \<in> set (first # rest)" by auto
  then have "mr \<in> {e \<in> set (first # rest).
      created_at e = created_at mr \<and> completeness_score e = completeness_score mr}" by blast
  then have "mr \<in> set ?same" by (simp only: set_filter)
  then have "sort_key (start_key today) ?same \<noteq> []" by (metis set_sort empty_iff set_empty)
  then obtain best others where srt: "sort_key (start_key today) ?same = best # others"
    by (cases "sort_key (start_key today) ?same") auto
  have sel: "select_best_enrollment clock today es =
      Inr (best, if filter (\<lambda>e. \<not> is_archived e) es \<noteq> [] then es else first # rest)"
    unfolding select_best_enrollment_unfold [OF len] cands using fold bs srt by simp
  show ?thesis
  proof (rule that [of ?keyed first rest mr best others])
    show "?keyed = ?keyed" by (rule refl)
    show "map snd ?keyed = first # rest" by (rule cands)
    show "set (first # rest) = set ?C" using setc cands by simp
    show "fold prefer_complete (first # rest) (first, completeness_score first) =
       (mr, completeness_score mr)" using fold bs by simp
    show "created_at mr = created_at first" using fp by blast
    show "\<forall>e\<in>set (first # rest). created_at e = created_at first \<longrightarrow>
       completeness_score e \<le> completeness_score mr" using fp by blast
    show "sort_key (start_key today) ?same = best # others" by (rule srt)
    show "select_best_enrollment clock today es =
       Inr (best, if filter (\<lambda>e. \<not> is_archived e) es \<noteq> [] then es else first # rest)"
      by (rule sel)
  qed
qed

lemma same_completeness_member:
  assumes "sort_key (start_key today)
       (filter (\<lambda>e. created_at e = created_at mr \<and>
                    completeness_score e = completeness_score mr) cs) = best # others"
  shows "best \<in> set cs" and "created_at best = created_at mr"
    and "completeness_score best = completeness_score mr"
    and "\<forall>e\<in>set cs. created_at e = created_at mr \<and>
           completeness_score e = completeness_score mr \<longrightarrow>
           start_key today best \<le> start_key today e"
proof -
  note bh = sort_key_head [OF assms]
  from bh(1) have "best \<in> {e \<in> set cs.
      created_at e = created_at mr \<and> completeness_score e = completeness_score mr}"
    by (simp only: set_filter)
  then show "best \<in> set cs" "created_at best = created_at mr"
    "completeness_score best = completeness_score mr" by blast+
  show "\<forall>e\<in>set cs. created_at e = created_at mr \<and>
           completeness_score e = completeness_score mr \<longrightarrow>
           start_key today best \<le> start_key today e"
  proof (intro ballI impI)
    fix e assume "e \<in> set cs"
      and "created_at e = created_at mr \<and> completeness_score e = completeness_score mr"
    then have "e \<in> {e \<in> set cs.
      created_at e = created_at mr \<and> completeness_score e = completeness_score mr}" by blast
    then have "e \<in> set (filter (\<lambda>e. created_at e = created_at mr \<and>
                    completeness_score e = completeness_score mr) cs)"
      by (simp only: set_filter)
    with bh(2) show "start_key today best \<le> start_key today e" by blast
  qed
qed

lemma select_best_enrollment_score:
  assumes len: "length es \<noteq> 1" and ne: "es \<noteq> []"
  shows "\<exists>r es'. select_best_enrollment clock today es = Inr (r, es') \<and>
           r \<in> set (candidates_of es) \<and>
           (\<forall>e\<in>set (candidates_of es). created_at e = created_at r \<longrightarrow>
              completeness_score e \<le> completeness_score r)"
proof -
  obtain keyed first rest mr best others where r0:
    "sort_key (\<lambda>keyed. - fst keyed)
       (zip (created_keys clock 0 (candidates_of es)) (candidates_of es)) = keyed"
    "map snd keyed = first # rest"
    and r: "set (first # rest) = set (candidates_of es)"
    "fold prefer_complete (first # rest) (first, completeness_score first) =
       (mr, completeness_score mr)"
    "created_at mr = created_at first"
    "\<forall>e\<in>set (first # rest). created_at e = created_at first \<longrightarrow>
       completeness_score e \<le> completeness_score mr"
    "sort_key (start_key today)
       (filter (\<lambda>e. created_at e = created_at mr \<and>
                    completeness_score e = completeness_score mr) (first # rest)) = best # others"
    "select_best_enrollment clock today es =
       Inr (best, if filter (\<lambda>e. \<not> is_archived e) es \<noteq> [] then es else first # rest)"
    by (rule select_best_enrollment_run [OF len ne])
  note b = same_completeness_member [OF r(5)]
  from b(1) r(1) have 1: "best \<in> set (candidates_of es)" by blast
  have 2: "\<forall>e\<in>set (candidates_of es). created_at e = created_at best \<longrightarrow>
              completeness_score e \<le> completeness_score best"
  proof (intro ballI impI)
    fix e assume e: "e \<in> set (candidates_of es)" "created_at e = created_at best"
    from e(1) r(1) have "e \<in> set (first # rest)" by blast
    moreover from e(2) b(2) r(3) have "created_at e = created_at first" by simp
    ultimately have "completeness_score e \<le> completeness_score mr" using r(4) by blast
    with b(3) show "completeness_score e \<le> completeness_score best" by simp
  qed
  from r(6) 1 2 show ?thesis by blast
qed

subsection \<open>A candidate that beats all others\<close>

lemma created_before_irrefl: "\<not> created_before t t"
  by (simp add: created_before_def split: option.splits)

lemma beaten_same_created:
  "beaten today e w \<Longrightarrow> created_at e = created_at w \<Longrightarrow>
   completeness_score e < completeness_score w \<or>
   (completeness_score e = completeness_score w \<and> start_key today w < start_key today e)"
  by (simp add: beaten_def created_before_irrefl)

lemma beaten_other_created:
  "beaten today e w \<Longrightarrow> created_at e \<noteq> created_at w \<Longrightarrow>
   created_before (created_at e) (created_at w)"
  by (simp add: beaten_def)

lemma created_before_keys:
  assumes before: "created_before (created_at e) (created_at w)"
    and ke: "(ke, e) \<in> set (zip (created_keys clock k es) es)"
    and kw: "(kw, w) \<in> set (zip (created_keys clock k es) es)"
    and late: "created_at w = None \<longrightarrow>
      (\<forall>j. \<forall>x\<in>set es. \<forall>t. created_at x = Some t \<longrightarrow> t < clock j)"
  shows "ke < kw"
proof -
  from ke have e: "e \<in> set es" by (auto dest: set_zip_rightD)
  note fe = created_keys_zip [OF ke] and fw = created_keys_zip [OF kw]
  show ?thesis
  proof (cases "created_at w")
    case None
    with before obtain t where t: "created_at e = Some t"
      by (auto simp: created_before_def)
    from None fw obtain j where "kw = clock j" by auto
    moreover from t fe have "ke = t" by simp
    ultimately show ?thesis using late None e t by blast
  next
    case (Some tb)
    with before obtain ta where ta: "created_at e = Some ta" "ta < tb"
      by (auto simp: created_before_def split: option.splits)
    with Some fe fw show ?thesis by simp
  qed
qed

lemma select_best_enrollment_winner:
  assumes len: "length es \<noteq> 1"
    and w: "w \<in> set (candidates_of es)"
    and best: "\<forall>e\<in>set (candidates_of es). e \<noteq> w \<longrightarrow> beaten today e w"
    and late: "created_at w = None \<longrightarrow>
      (\<forall>j. \<forall>x\<in>set es. \<forall>t. created_at x = Some t \<longrightarrow> t < clock j)"
  shows "\<exists>es'. select_best_enrollment clock today es = Inr (w, es')"
proof -
  let ?C = "candidates_of es"
  from w candidates_of_subset [of es] have ne: "es \<noteq> []" by auto
  obtain keyed first rest mr winner others where r0:
    "sort_key (\<lambda>keyed. - fst keyed) (zip (created_keys clock 0 ?C) ?C) = keyed"
    "map snd keyed = first # rest"
    and r: "set (first # rest) = set ?C"
    "fold prefer_complete (first # rest) (first, completeness_score first) =
       (mr, completeness_score mr)"
    "created_at mr = created_at first"
    "\<forall>e\<in>set (first # rest). created_at e = created_at first \<longrightarrow>
       completeness_score e \<le> completeness_score mr"
    "sort_key (start_key today)
       (filter (\<lambda>e. created_at e = created_at mr \<and>
                    completeness_score e = completeness_score mr) (first # rest)) = winner # others"
    "select_best_enrollment clock today es =
       Inr (winner, if filter (\<lambda>e. \<not> is_archived e) es \<noteq> [] then es else first # rest)"
    by (rule select_best_enrollment_run [OF len ne])
  have late_c: "created_at w = None \<longrightarrow>
      (\<forall>j. \<forall>x\<in>set ?C. \<forall>t. created_at x = Some t \<longrightarrow> t < clock j)"
    using late candidates_of_subset [of es] by blast
  \<comment> \<open>priority 2: the first candidate after the sort has the winner's \<^verbatim>\<open>created_at\<close>\<close>
  from r0(2) obtain kf krest where keyed: "keyed = (kf, first) # krest"
    by (cases keyed) auto
  note hd = sort_key_head [OF r0(1) [unfolded keyed]]
  from keyed_member [OF w] obtain kw where kw: "(kw, w) \<in> set (zip (created_keys clock 0 ?C) ?C)"
    by blast
  have first_w: "created_at first = created_at w"
  proof (rule ccontr)
    assume diff: "created_at first \<noteq> created_at w"
    from hd(1) have "first \<in> set ?C" by (auto dest: set_zip_rightD)
    moreover from diff have "first \<noteq> w" by auto
    ultimately have "beaten today first w" using best by blast
    from beaten_other_created [OF this diff]
    have "created_before (created_at first) (created_at w)" .
    from created_before_keys [OF this hd(1) kw late_c] have "kf < kw" .
    moreover from hd(2) [rule_format, OF kw] have "- kf \<le> - kw" by simp
    ultimately show False by simp
  qed
  \<comment> \<open>priority 3: the best score is the winner's\<close>
  from w r(1) have w_in: "w \<in> set (first # rest)" by blast
  from r(4) [rule_format, OF w_in] first_w
  have le: "completeness_score w \<le> completeness_score mr" by simp
  have mr_in: "mr \<in> set ?C"
  proof -
    from fold_prefer_complete [OF r(2)] have "mr = first \<or> mr \<in> set (first # rest)" by blast
    with r(1) show ?thesis by auto
  qed
  have ge: "completeness_score mr \<le> completeness_score w"
  proof (cases "mr = w")
    case True
    then show ?thesis by simp
  next
    case False
    with mr_in best have "beaten today mr w" by blast
    moreover from r(3) first_w have "created_at mr = created_at w" by simp
    ultimately show ?thesis by (auto dest: beaten_same_created)
  qed
  from le ge have score: "completeness_score mr = completeness_score w" by simp
  \<comment> \<open>priority 4: the winner has the least start key among those that remain\<close>
  note b = same_completeness_member [OF r(5)]
  have "winner = w"
  proof (rule ccontr)
    assume diff: "winner \<noteq> w"
    from b(1) r(1) have "winner \<in> set ?C" by blast
    with diff best have "beaten today winner w" by blast
    moreover from b(2) r(3) first_w have cw: "created_at winner = created_at w" by simp
    moreover from b(3) score have sw: "completeness_score winner = completeness_score w"
      by simp
    ultimately have "start_key today w < start_key today winner"
      by (auto dest: beaten_same_created)
    moreover from r(3) first_w score
    have "created_at w = created_at mr \<and> completeness_score w = completeness_score mr"
      by simp
    with b(4) [rule_format, OF w_in]
    have "start_key today winner \<le> start_key today w" by blast
    ultimately show False by simp
  qed
  with r(6) show ?thesis by blast
qed

subsection \<open>Two runs\<close>

text \<open>
  Two records without \<^verbatim>\<open>created_at\<close>, tied otherwise: the clock is read for the first,
  then for the second, the second reading is the later one, and the descending sort
  puts the second record first. The record kept is the second of the input.
\<close>

lemma select_best_enrollment_unstamped_example:
  "select_best_enrollment (\<lambda>k. 1000 + int k) 100
       [(example_enrollment 1 (Some 1) None)\<lparr>created_at := None\<rparr>,
        (example_enrollment 2 (Some 1) None)\<lparr>created_at := None\<rparr>] =
     Inr ((example_enrollment 2 (Some 1) None)\<lparr>created_at := None\<rparr>,
          [(example_enrollment 1 (Some 1) None)\<lparr>created_at := None\<rparr>,
           (example_enrollment 2 (Some 1) None)\<lparr>created_at := None\<rparr>])"
  by (simp add: resolver_run)

text \<open>
  Two archived records, created at 1 and 2. No record is non-archived, so
  \<^verbatim>\<open>candidates\<close> is the list of the caller itself, and \<^verbatim>\<open>candidates.sort(...)\<close> leaves it
  as \<open>[2, 1]\<close>.
\<close>

lemma select_best_enrollment_all_archived_example:
  "select_best_enrollment (\<lambda>k. 1000 + int k) 100
     [(example_enrollment 1 (Some 1) None)\<lparr>is_archived := True, created_at := Some 1\<rparr>,
      (example_enrollment 2 (Some 1) None)\<lparr>is_archived := True, created_at := Some 2\<rparr>] =
   Inr ((example_enrollment 2 (Some 1) None)\<lparr>is_archived := True, created_at := Some 2\<rparr>,
        [(example_enrollment 2 (Some 1) None)\<lparr>is_archived := True, created_at := Some 2\<rparr>,
         (example_enrollment 1 (Some 1) None)\<lparr>is_archived := True, created_at := Some 1\<rparr>])"
  by (simp add: resolver_run)

section \<open>The resolver and the order of its input\<close>

text \<open>
  Two records that differ in their ids only are tied through all four priorities. Both
  have a \<^verbatim>\<open>created_at\<close>, so the sort by creation time is stable on them, and the
  resolver keeps record 1 from \<open>[1, 2]\<close> and record 2 from \<open>[2, 1]\<close>.
\<close>

theorem resolver_order_counterexample:
  "mset [example_enrollment 1 (Some 1) None, example_enrollment 2 (Some 1) None] =
     mset [example_enrollment 2 (Some 1) None, example_enrollment 1 (Some 1) None] \<and>
   select_best_enrollment (\<lambda>k. 1000 + int k) 100
       [example_enrollment 1 (Some 1) None, example_enrollment 2 (Some 1) None] =
     Inr (example_enrollment 1 (Some 1) None,
          [example_enrollment 1 (Some 1) None, example_enrollment 2 (Some 1) None]) \<and>
   select_best_enrollment (\<lambda>k. 1000 + int k) 100
       [example_enrollment 2 (Some 1) None, example_enrollment 1 (Some 1) None] =
     Inr (example_enrollment 2 (Some 1) None,
          [example_enrollment 2 (Some 1) None, example_enrollment 1 (Some 1) None]) \<and>
   id_no (example_enrollment 1 (Some 1) None) \<noteq> id_no (example_enrollment 2 (Some 1) None)"
  by (simp add: resolver_run)

text \<open>
  C1, as the code has it. Take a cluster of two or more records with a best candidate:
  a record left by priority 1 (the non-archived records, or all records when none is
  non-archived) that beats every other such record, by a later \<^verbatim>\<open>created_at\<close> (a
  missing one counting as later than every stamp), or with the same \<^verbatim>\<open>created_at\<close> by
  a higher completeness score, or with the same score by an earlier start date (a
  missing one counted as today). The resolver keeps that record for every order of the
  input, whatever the ties among the other records. If the best candidate has no
  \<^verbatim>\<open>created_at\<close>, the clock of either call is required to read later than every
  \<^verbatim>\<open>created_at\<close> of the cluster; the two calls may read different clocks.
\<close>

theorem select_best_enrollment_order_independent:
  assumes perm: "mset xs = mset ys" and len: "2 \<le> length xs"
    and winner: "w \<in> set (candidates_of xs)"
    and best: "\<forall>e\<in>set (candidates_of xs). e \<noteq> w \<longrightarrow> beaten today e w"
    and late: "created_at w = None \<longrightarrow>
      (\<forall>j. \<forall>x\<in>set xs. \<forall>t. created_at x = Some t \<longrightarrow> t < clock j)"
    and late': "created_at w = None \<longrightarrow>
      (\<forall>j. \<forall>x\<in>set xs. \<forall>t. created_at x = Some t \<longrightarrow> t < clock' j)"
  shows "\<exists>xs' ys'. select_best_enrollment clock today xs = Inr (w, xs') \<and>
           select_best_enrollment clock' today ys = Inr (w, ys')"
proof -
  from perm have sets: "set xs = set ys" by (rule mset_eq_setD)
  from perm have "length xs = length ys" by (rule mset_eq_length)
  with len have l: "length xs \<noteq> 1" "length ys \<noteq> 1" by auto
  from sets have C: "set (candidates_of ys) = set (candidates_of xs)"
    by (simp add: candidates_of_set)
  from select_best_enrollment_winner [OF l(1) winner best late]
  obtain xs' where 1: "select_best_enrollment clock today xs = Inr (w, xs')" by blast
  have "w \<in> set (candidates_of ys)" using winner C by blast
  moreover have "\<forall>e\<in>set (candidates_of ys). e \<noteq> w \<longrightarrow> beaten today e w"
    using best C by blast
  moreover have "created_at w = None \<longrightarrow>
      (\<forall>j. \<forall>x\<in>set ys. \<forall>t. created_at x = Some t \<longrightarrow> t < clock' j)"
    using late' sets by blast
  ultimately have ys: "w \<in> set (candidates_of ys)"
    "\<forall>e\<in>set (candidates_of ys). e \<noteq> w \<longrightarrow> beaten today e w"
    "created_at w = None \<longrightarrow>
      (\<forall>j. \<forall>x\<in>set ys. \<forall>t. created_at x = Some t \<longrightarrow> t < clock' j)"
    by blast+
  from select_best_enrollment_winner [OF l(2) ys]
  obtain ys' where 2: "select_best_enrollment clock' today ys = Inr (w, ys')" by blast
  from 1 2 show ?thesis by blast
qed

theorem select_best_enrollment_order_independent_witness:
  "mset winner_example = mset winner_example_permuted \<and>
   2 \<le> length winner_example \<and>
   (example_enrollment 3 (Some 1) None)\<lparr>created_at := None\<rparr> \<in> set (candidates_of winner_example) \<and>
   beaten 100 (example_enrollment 1 (Some 1) None)
     ((example_enrollment 3 (Some 1) None)\<lparr>created_at := None\<rparr>) \<and>
   beaten 100 (example_enrollment 2 (Some 1) None)
     ((example_enrollment 3 (Some 1) None)\<lparr>created_at := None\<rparr>) \<and>
   (\<exists>xs' ys'.
      select_best_enrollment (\<lambda>k. 1000 + int k) 100 winner_example =
        Inr ((example_enrollment 3 (Some 1) None)\<lparr>created_at := None\<rparr>, xs') \<and>
      select_best_enrollment (\<lambda>k. 2000 + 2 * int k) 100 winner_example_permuted =
        Inr ((example_enrollment 3 (Some 1) None)\<lparr>created_at := None\<rparr>, ys'))"
proof -
  let ?w = "(example_enrollment 3 (Some 1) None)\<lparr>created_at := None\<rparr>"
  have perm: "mset winner_example = mset winner_example_permuted"
    by (simp add: winner_example_def winner_example_permuted_def)
  have len: "2 \<le> length winner_example" by (simp add: winner_example_def)
  have cands: "candidates_of winner_example = winner_example"
    by (simp add: candidates_of_def winner_example_def example_enrollment_def)
  have w: "?w \<in> set (candidates_of winner_example)"
    unfolding cands by (simp add: winner_example_def)
  have b1: "beaten 100 (example_enrollment 1 (Some 1) None) ?w"
    by (simp add: beaten_def created_before_def example_enrollment_def)
  have b2: "beaten 100 (example_enrollment 2 (Some 1) None) ?w"
    by (simp add: beaten_def created_before_def example_enrollment_def)
  have best: "\<forall>e\<in>set (candidates_of winner_example). e \<noteq> ?w \<longrightarrow> beaten 100 e ?w"
    unfolding cands using b1 b2 by (simp add: winner_example_def)
  have late: "created_at ?w = None \<longrightarrow>
      (\<forall>j. \<forall>x\<in>set winner_example. \<forall>t. created_at x = Some t \<longrightarrow> t < 1000 + int j)"
    by (simp add: winner_example_def example_enrollment_def)
  have late': "created_at ?w = None \<longrightarrow>
      (\<forall>j. \<forall>x\<in>set winner_example. \<forall>t. created_at x = Some t \<longrightarrow> t < 2000 + 2 * int j)"
    by (simp add: winner_example_def example_enrollment_def)
  from select_best_enrollment_order_independent [OF perm len w best late late']
    perm len w b1 b2 show ?thesis by blast
qed

section \<open>The overlap predicate and the exchange of its arguments\<close>




section \<open>The resolver on small clusters\<close>

text \<open>
  The resolver given one record returns it and raises nothing.
\<close>

theorem select_best_enrollment_single_counterexample:
  "select_best_enrollment (\<lambda>k. 1000 + int k) 100 [example_enrollment 1 (Some 1) None] =
   Inr (example_enrollment 1 (Some 1) None, [example_enrollment 1 (Some 1) None])"
  by (simp add: resolver_run)

text \<open>
  C3, as the code has it. The resolver does not reject a small cluster: given exactly one
  record it returns that record and leaves the list as it was. The size check is the
  caller's: \<open>remove_duplicate_group\<close> answers \<^verbatim>\<open>None\<close> for a group of fewer than two
  records and does not call the resolver.
\<close>

theorem small_cluster_handling:
  "select_best_enrollment clock today [e] = Inr (e, [e]) \<and>
   remove_duplicate_group clock today [e] = Inr None \<and>
   remove_duplicate_group clock today [] = Inr None"
  by (simp add: select_best_enrollment_def remove_duplicate_group_def)

section \<open>The clusterer: partition and connected components\<close>







section \<open>The order of the members of a group\<close>




section \<open>The completeness score as a tie-break\<close>

text \<open>
  Notes weigh 10, and so do a receiving-services date, a status other than
  \<^verbatim>\<open>'pending'\<close> and a sub-program together (5 + 3 + 2). Record 1 has notes only, record 2
  has the other three and the earlier start date: the scores tie and priority 4 keeps
  record 2, the one without notes.
\<close>

theorem notes_tie_break_counterexample:
  "select_best_enrollment (\<lambda>k. 1000 + int k) 100
     [(example_enrollment 1 (Some 5) None)\<lparr>notes_text := Some ''ok''\<rparr>,
      (example_enrollment 2 (Some 1) None)
        \<lparr>status := Some ''active'', receiving_services_date := Some 1, sub_program := Some 7\<rparr>] =
   Inr ((example_enrollment 2 (Some 1) None)
          \<lparr>status := Some ''active'', receiving_services_date := Some 1, sub_program := Some 7\<rparr>,
        [(example_enrollment 1 (Some 5) None)\<lparr>notes_text := Some ''ok''\<rparr>,
         (example_enrollment 2 (Some 1) None)
           \<lparr>status := Some ''active'', receiving_services_date := Some 1, sub_program := Some 7\<rparr>])"
  by (simp add: resolver_run)

text \<open>
  C7, as the code has it. Let a cluster of any size hold two records \<open>a\<close> and \<open>b\<close>
  tied on the archived flag and with identical \<^verbatim>\<open>created_at\<close>, where \<open>a\<close> has
  non-empty notes, \<open>b\<close> has none, and the completeness score of \<open>a\<close> is the higher
  one. Then the resolver returns a record of the cluster, never \<open>b\<close>, and when the
  cluster consists of \<open>a\<close> and \<open>b\<close> only it keeps \<open>a\<close>. Notes alone do not decide:
  the score of \<open>b\<close> reaches that of notes when \<open>b\<close> has a receiving-services date, a
  status other than \<^verbatim>\<open>'pending'\<close> and a sub-program.
\<close>

theorem notes_tie_break:
  assumes mem: "a \<in> set enrollments" "b \<in> set enrollments"
    and arch: "is_archived a = is_archived b" and created: "created_at a = created_at b"
    and notes_a: "truthy_str (notes_text a)" and notes_b: "\<not> truthy_str (notes_text b)"
    and higher: "completeness_score b < completeness_score a"
  shows "\<exists>kept enrollments'.
           select_best_enrollment clock today enrollments = Inr (kept, enrollments') \<and>
           kept \<in> set enrollments \<and> kept \<noteq> b \<and> (set enrollments = {a, b} \<longrightarrow> kept = a)"
proof -
  from higher have "a \<noteq> b" by auto
  from multiple_two [OF mem this] have len: "length enrollments \<noteq> 1"
    by (simp add: multiple_def)
  from mem have ne: "enrollments \<noteq> []" by auto
  from select_best_enrollment_score [OF len ne, of clock today]
  obtain kept enrollments' where
    sel: "select_best_enrollment clock today enrollments = Inr (kept, enrollments')"
    and cand: "kept \<in> set (candidates_of enrollments)"
    and top: "\<forall>e\<in>set (candidates_of enrollments). created_at e = created_at kept \<longrightarrow>
                completeness_score e \<le> completeness_score kept"
    by blast
  from cand candidates_of_subset [of enrollments] have k: "kept \<in> set enrollments" by blast
  have nb: "kept \<noteq> b"
  proof
    assume eq: "kept = b"
    with cand have "b \<in> set (candidates_of enrollments)" by simp
    from candidates_of_archived [OF this mem(1) arch]
    have "a \<in> set (candidates_of enrollments)" .
    from top [rule_format, OF this] created eq
    have "completeness_score a \<le> completeness_score b" by simp
    with higher show False by simp
  qed
  from sel k nb show ?thesis by blast
qed

theorem notes_tie_break_witness:
  "is_archived noted_example = is_archived unnoted_example \<and>
   created_at noted_example = created_at unnoted_example \<and>
   truthy_str (notes_text noted_example) \<and> \<not> truthy_str (notes_text unnoted_example) \<and>
   completeness_score unnoted_example < completeness_score noted_example \<and>
   (\<exists>l. select_best_enrollment (\<lambda>k. 1000 + int k) 100
           [unnoted_example, noted_example, example_enrollment 3 (Some 1) None] =
         Inr (noted_example, l)) \<and>
   (\<exists>kept l. select_best_enrollment (\<lambda>k. 1000 + int k) 100
           [unnoted_example, noted_example, example_enrollment 3 (Some 1) None] =
         Inr (kept, l) \<and> kept \<noteq> unnoted_example)"
proof -
  let ?es = "[unnoted_example, noted_example, example_enrollment 3 (Some 1) None]"
  have 1: "noted_example \<in> set ?es" and 2: "unnoted_example \<in> set ?es" by simp_all
  have 3: "is_archived noted_example = is_archived unnoted_example"
    by (simp add: noted_example_def unnoted_example_def example_enrollment_def)
  have 4: "created_at noted_example = created_at unnoted_example"
    by (simp add: noted_example_def unnoted_example_def example_enrollment_def)
  have 5: "truthy_str (notes_text noted_example)"
    by (simp add: noted_example_def example_enrollment_def truthy_str_def)
  have 6: "\<not> truthy_str (notes_text unnoted_example)"
    by (simp add: unnoted_example_def example_enrollment_def truthy_str_def)
  have 7: "completeness_score unnoted_example < completeness_score noted_example"
    by (simp add: noted_example_def unnoted_example_def example_enrollment_def
        completeness_score_def truthy_str_def)
  have run: "select_best_enrollment (\<lambda>k. 1000 + int k) 100 ?es = Inr (noted_example, ?es)"
    by (simp add: resolver_run noted_example_def unnoted_example_def)
  from notes_tie_break [OF 1 2 3 4 5 6 7, of "\<lambda>k. 1000 + int k" 100] run 3 4 5 6 7
  show ?thesis by blast
qed

section \<open>The resolver and the caller's list\<close>



section \<open>The overlap predicate on a range and itself\<close>




section \<open>The clusterer on the empty input\<close>

text \<open>
  C10. Clustering an empty input returns no groups: \<open>find_overlapping_groups\<close> on the
  empty list is the empty list.
\<close>

theorem find_overlapping_groups_empty:
  "find_overlapping_groups today [] = Inr []"
  by (simp add: find_overlapping_groups_def)

end
